theory Spec2Isabelle
  imports Complex_Main
begin

section \<open>The platform: points, the document and the 2D context\<close>

text \<open>
  JavaScript numbers are modelled as mathematical numbers: coordinates, distances and
  radii are \<open>real\<close>, array indices and the canvas' \<open>width\<close>/\<open>height\<close> (unsigned
  integers in the DOM) are \<open>nat\<close>, \<open>Date.now()\<close> is an \<open>int\<close> of milliseconds that
  every operation reading the clock takes as an argument. Rounding, \<open>NaN\<close> and
  \<open>Infinity\<close> are outside the model.
\<close>

record point =
  px :: real
  py :: real

text \<open>A history entry \<open>{x, y, t}\<close>.\<close>

record sample =
  sx :: real
  sy :: real
  st :: int

datatype exn = Error string | TypeError

text \<open>
  \<open>document.getElementById\<close>: the document maps an id to an element or to nothing.
  An element is an image that can be drawn (named by its source) or anything else.
  A \<open>null\<close> id is looked up as the string \<open>null\<close>, as the DOM converts it.
\<close>

datatype element = ImageElement string | OtherElement

type_synonym document = "string \<Rightarrow> element option"

definition getElementById :: "document \<Rightarrow> string option \<Rightarrow> element option" where
  "getElementById doc ident = doc (case ident of None \<Rightarrow> ''null'' | Some s \<Rightarrow> s)"

text \<open>
  The 2D context holds the drawing style, the current path and what has been painted on
  the bitmap since it was last wiped, in painting order.
\<close>

datatype segment = MoveTo real real | LineTo real real

datatype paint =
    Stroked "segment list" string real string string string
  | Stamped string real real real real string

record context2d =
  strokeStyle :: string
  lineWidth :: real
  lineCap :: string
  lineJoin :: string
  ctx_filter :: string
  path :: "segment list"
  painted :: "paint list"

definition ctx_beginPath :: "context2d \<Rightarrow> context2d" where
  "ctx_beginPath c = c\<lparr>path := []\<rparr>"

definition ctx_moveTo :: "real \<Rightarrow> real \<Rightarrow> context2d \<Rightarrow> context2d" where
  "ctx_moveTo x y c = c\<lparr>path := path c @ [MoveTo x y]\<rparr>"

definition ctx_lineTo :: "real \<Rightarrow> real \<Rightarrow> context2d \<Rightarrow> context2d" where
  "ctx_lineTo x y c = c\<lparr>path := path c @ [LineTo x y]\<rparr>"

definition ctx_stroke :: "context2d \<Rightarrow> context2d" where
  "ctx_stroke c =
     c\<lparr>painted := painted c @
        [Stroked (path c) (strokeStyle c) (lineWidth c) (lineCap c) (lineJoin c) (ctx_filter c)]\<rparr>"

text \<open>
  \<open>ctx.clearRect(0, 0, canvas.width, canvas.height)\<close>: the rectangle is the whole
  bitmap, so nothing painted before remains.
\<close>

definition ctx_clearRect_all :: "context2d \<Rightarrow> context2d" where
  "ctx_clearRect_all c = c\<lparr>painted := []\<rparr>"

text \<open>
  \<open>ctx.drawImage(img, dx, dy, dw, dh)\<close>: the platform converts its first argument to
  an image source and raises \<open>TypeError\<close> when it is \<open>null\<close> or an element that is
  no image; nothing is painted then.
\<close>

definition ctx_drawImage ::
  "element option \<Rightarrow> real \<Rightarrow> real \<Rightarrow> real \<Rightarrow> real \<Rightarrow> context2d \<Rightarrow> exn + context2d" where
  "ctx_drawImage img dx dy dw dh c =
     (case img of
        Some (ImageElement src) \<Rightarrow>
          Inr (c\<lparr>painted := painted c @ [Stamped src dx dy dw dh (ctx_filter c)]\<rparr>)
      | Some OtherElement \<Rightarrow> Inl TypeError
      | None \<Rightarrow> Inl TypeError)"

section \<open>The drawer\<close>

record canvas =
  width :: nat
  height :: nat

text \<open>
  What the constructor may be handed: nothing, a value that is no canvas element, or a
  canvas element together with what its \<open>getContext('2d')\<close> returns.
\<close>

datatype jsvalue =
    Undefined
  | Null
  | OtherValue
  | HTMLCanvasElement canvas "context2d option"

record drawer =
  canvas :: canvas
  ctx :: context2d
  canvasHistory :: "sample list list"
  brushMode :: bool
  showGrid :: bool
  gridSize :: nat
  isDrawing :: bool
  lastT :: int
  lastX :: real
  lastY :: real
  imageId :: "string option"
  bufferSize :: nat
  distanceBuffer :: "real list"
  pointBuffer :: "point list"
  bufferIndex :: nat
  circlesPerPixel :: real

subsection \<open>The grid\<close>

text \<open>
  The body of the two \<open>for\<close> loops of \<open>_drawGrid\<close>: \<open>beginPath\<close>, \<open>moveTo\<close>,
  \<open>lineTo\<close>, \<open>stroke\<close>.
\<close>

definition verticalLine :: "nat \<Rightarrow> drawer \<Rightarrow> drawer" where
  "verticalLine x s =
     s\<lparr>ctx := ctx_stroke (ctx_lineTo (real x) (real (height (canvas s)))
                (ctx_moveTo (real x) 0 (ctx_beginPath (ctx s))))\<rparr>"

definition horizontalLine :: "nat \<Rightarrow> drawer \<Rightarrow> drawer" where
  "horizontalLine y s =
     s\<lparr>ctx := ctx_stroke (ctx_lineTo (real (width (canvas s))) (real y)
                (ctx_moveTo 0 (real y) (ctx_beginPath (ctx s))))\<rparr>"

text \<open>
  The loops themselves. With \<open>gridSize = 0\<close> and a canvas that is not empty they
  never end, which is the value \<open>None\<close>.
\<close>

partial_function (option) verticalLines :: "nat \<Rightarrow> drawer \<Rightarrow> drawer option" where
  "verticalLines x s =
     (if x < width (canvas s) then verticalLines (x + gridSize s) (verticalLine x s)
      else Some s)"

partial_function (option) horizontalLines :: "nat \<Rightarrow> drawer \<Rightarrow> drawer option" where
  "horizontalLines y s =
     (if y < height (canvas s) then horizontalLines (y + gridSize s) (horizontalLine y s)
      else Some s)"

definition u_drawGrid :: "drawer \<Rightarrow> drawer option" where
  "u_drawGrid s =
     Option.bind (verticalLines 0 (s\<lparr>ctx := (ctx s)\<lparr>strokeStyle := ''#ddd'', lineWidth := 0.5\<rparr>\<rparr>))
       (\<lambda>s1. Option.bind (horizontalLines 0 s1)
          (\<lambda>s2. Some (s2\<lparr>ctx := (ctx s2)\<lparr>strokeStyle := ''#fff'', lineWidth := 2\<rparr>\<rparr>)))"

definition u_clearCanvas :: "drawer \<Rightarrow> drawer option" where
  "u_clearCanvas s =
     (let s1 = s\<lparr>ctx := ctx_clearRect_all (ctx s)\<rparr>
      in if showGrid s1 then u_drawGrid s1 else Some s1)"

definition u_init :: "drawer \<Rightarrow> drawer option" where
  "u_init s =
     (let s1 = s\<lparr>ctx := (ctx s)\<lparr>strokeStyle := ''#fff'', lineWidth := 2,
                                 lineCap := ''round'', lineJoin := ''round''\<rparr>\<rparr>
      in if showGrid s1 then u_drawGrid s1 else Some s1)"

subsection \<open>Construction\<close>

text \<open>
  The guard of the constructor throws for a missing value and for one that is no canvas
  element. A canvas whose \<open>getContext('2d')\<close> is \<open>null\<close> passes the guard; \<open>_init\<close>
  then fails with \<open>TypeError\<close> on its first assignment to \<open>this.ctx\<close>.
\<close>

definition constructor :: "jsvalue \<Rightarrow> (exn + drawer) option" where
  "constructor v =
     (case v of
        HTMLCanvasElement cv getContext \<Rightarrow>
          (case getContext of
             None \<Rightarrow> Some (Inl TypeError)
           | Some c \<Rightarrow>
               map_option Inr
                 (u_init \<lparr>canvas = cv, ctx = c, canvasHistory = [], brushMode = False,
                          showGrid = True, gridSize = 20, isDrawing = False, lastT = 0,
                          lastX = 0, lastY = 0, imageId = None, bufferSize = 20,
                          distanceBuffer = replicate 20 0,
                          pointBuffer = replicate 20 \<lparr>px = 0, py = 0\<rparr>,
                          bufferIndex = 0, circlesPerPixel = 0.1\<rparr>))
      | _ \<Rightarrow> Some (Inl (Error ''Invalid canvas element provided.'')))"

subsection \<open>Rendering a segment\<close>

definition u_drawLine :: "real \<Rightarrow> real \<Rightarrow> drawer \<Rightarrow> drawer" where
  "u_drawLine x y s =
     s\<lparr>ctx := ctx_stroke (ctx_lineTo x y (ctx_moveTo (lastX s) (lastY s) (ctx_beginPath (ctx s))))\<rparr>"

text \<open>
  \<open>distanceBuffer.reduce((a, b) => a + b, 0) / bufferSize\<close>. The constructor sets
  \<open>bufferSize\<close> to 20 and no method assigns it.
\<close>

definition averageDistance :: "drawer \<Rightarrow> real" where
  "averageDistance s = foldl (+) 0 (distanceBuffer s) / real (bufferSize s)"

text \<open>
  An array assignment \<open>xs[i] = v\<close>. Beyond the end JavaScript extends the array and
  leaves holes, shown here by a filler: \<open>0\<close> for distances (\<open>reduce\<close> skips a hole,
  so it adds nothing to the sum) and the origin for points (the point buffer is written
  and never read).
\<close>

definition assign :: "'a \<Rightarrow> 'a list \<Rightarrow> nat \<Rightarrow> 'a \<Rightarrow> 'a list" where
  "assign hole xs i v =
     (if i < length xs then xs[i := v] else xs @ replicate (i - length xs) hole @ [v])"

text \<open>The three assignments that add the current distance and point to the buffers.\<close>

definition addToBuffers :: "real \<Rightarrow> real \<Rightarrow> real \<Rightarrow> drawer \<Rightarrow> drawer" where
  "addToBuffers currentD x y s =
     s\<lparr>distanceBuffer := assign 0 (distanceBuffer s) (bufferIndex s) currentD,
       pointBuffer := assign \<lparr>px = 0, py = 0\<rparr> (pointBuffer s) (bufferIndex s) \<lparr>px = x, py = y\<rparr>,
       bufferIndex := (bufferIndex s + 1) mod bufferSize s\<rparr>"

text \<open>
  The values \<open>_drawImage\<close> computes before its loop: \<open>currentD\<close>, \<open>avgDistanceLast\<close>
  (before the buffers are written), \<open>avgDistance\<close> (after) and \<open>numCircles\<close>.
\<close>

record locals =
  currentD :: real
  avgDistanceLast :: real
  avgDistance :: real
  numCircles :: int

definition drawImage_locals :: "real \<Rightarrow> real \<Rightarrow> drawer \<Rightarrow> locals" where
  "drawImage_locals x y s =
     (let d = sqrt ((x - lastX s)\<^sup>2 + (y - lastY s)\<^sup>2)
      in \<lparr>currentD = d,
          avgDistanceLast = averageDistance s,
          avgDistance = averageDistance (addToBuffers d x y s),
          numCircles = max 1 \<lfloor>d * circlesPerPixel s\<rfloor>\<rparr>)"

text \<open>
  One turn of the loop of \<open>_drawImage\<close> computes \<open>t\<close>, \<open>circleX\<close>, \<open>circleY\<close> and the
  radius \<open>r\<close>; the image is then drawn at a fixed size and \<open>r\<close> is not used.
\<close>

record stamp =
  circleX :: real
  circleY :: real
  stamp_r :: real

definition drawImage_stamp :: "real \<Rightarrow> real \<Rightarrow> drawer \<Rightarrow> locals \<Rightarrow> int \<Rightarrow> stamp" where
  "drawImage_stamp x y s l i =
     (let t = real_of_int i / real_of_int (numCircles l)
      in \<lparr>circleX = lastX s + (x - lastX s) * t,
          circleY = lastY s + (y - lastY s) * t,
          stamp_r = ((avgDistance l - avgDistanceLast l) / real_of_int (numCircles l))
                      * (real_of_int i + avgDistanceLast l)\<rparr>)"

text \<open>
  The radius of \<open>_drawBrush\<close>, the renderer that \<open>draw\<close> no longer calls: the same
  expression with the parentheses placed differently.
\<close>

definition drawBrush_r :: "locals \<Rightarrow> int \<Rightarrow> real" where
  "drawBrush_r l i =
     ((avgDistance l - avgDistanceLast l) / real_of_int (numCircles l)) * real_of_int i
       + avgDistanceLast l"

text \<open>
  The loop \<open>for (let i = 0; i <= numCircles; i++)\<close> over its indices. \<open>lastX\<close> and
  \<open>lastY\<close> are those of \<open>s0\<close>, the state the call started in. An exception of
  \<open>drawImage\<close> leaves the loop with the state reached so far.
\<close>

fun stampLoop ::
  "document \<Rightarrow> real \<Rightarrow> real \<Rightarrow> drawer \<Rightarrow> locals \<Rightarrow> int list \<Rightarrow> drawer \<Rightarrow> (exn \<times> drawer) + drawer" where
  "stampLoop doc x y s0 l [] s = Inr s"
| "stampLoop doc x y s0 l (i # is) s =
     (let p = drawImage_stamp x y s0 l i;
          img = getElementById doc (imageId s)
      in case ctx_drawImage img (circleX p - 100) (circleY p - 100) 200 200 (ctx s) of
           Inl e \<Rightarrow> Inl (e, s)
         | Inr c \<Rightarrow> stampLoop doc x y s0 l is (s\<lparr>ctx := c\<rparr>))"

definition u_drawImage :: "document \<Rightarrow> real \<Rightarrow> real \<Rightarrow> drawer \<Rightarrow> (exn \<times> drawer) + drawer" where
  "u_drawImage doc x y s =
     (let l = drawImage_locals x y s
      in stampLoop doc x y s l [0..numCircles l] (addToBuffers (currentD l) x y s))"

subsection \<open>The public operations\<close>

definition clear :: "drawer \<Rightarrow> drawer option" where
  "clear s = u_clearCanvas (s\<lparr>canvasHistory := []\<rparr>)"

definition toggleGrid :: "drawer \<Rightarrow> drawer option" where
  "toggleGrid s = u_clearCanvas (s\<lparr>showGrid := \<not> showGrid s\<rparr>)"

definition setBrushMode :: "bool \<Rightarrow> drawer \<Rightarrow> drawer" where
  "setBrushMode enabled s =
     s\<lparr>brushMode := enabled,
       ctx := (ctx s)\<lparr>ctx_filter := (if enabled then ''invert(1) opacity(10%)''
                                      else ''invert(0) opacity(100%)'')\<rparr>\<rparr>"

definition getBrushMode :: "drawer \<Rightarrow> bool" where
  "getBrushMode s = brushMode s"

definition setBrushImage :: "string option \<Rightarrow> drawer \<Rightarrow> drawer" where
  "setBrushImage ident s = s\<lparr>imageId := ident\<rparr>"

definition startDrawing :: "int \<Rightarrow> point \<Rightarrow> drawer \<Rightarrow> drawer" where
  "startDrawing now point s =
     s\<lparr>isDrawing := True,
       lastX := px point,
       lastY := py point,
       canvasHistory := canvasHistory s @ [[\<lparr>sx = px point, sy = py point, st = 0\<rparr>]],
       lastT := now,
       distanceBuffer := map (\<lambda>_. 0) (distanceBuffer s),
       bufferIndex := 0,
       pointBuffer := map (\<lambda>_. \<lparr>px = px point, py = py point\<rparr>) (pointBuffer s)\<rparr>"

text \<open>
  \<open>draw\<close>. The history update reads the last stroke and its first sample; with an empty
  history, or an empty last stroke, that read fails with \<open>TypeError\<close> after the segment
  has been rendered.
\<close>

definition pushSample :: "int \<Rightarrow> point \<Rightarrow> drawer \<Rightarrow> (exn \<times> drawer) + drawer" where
  "pushSample now point s =
     (case rev (canvasHistory s) of
        [] \<Rightarrow> Inl (TypeError, s)
      | [] # _ \<Rightarrow> Inl (TypeError, s)
      | (first # rest) # earlier \<Rightarrow>
          Inr (s\<lparr>canvasHistory :=
                   rev earlier @
                   [(first # rest) @ [\<lparr>sx = px point, sy = py point, st = now - st first\<rparr>]],
                 lastX := px point,
                 lastY := py point\<rparr>))"

definition draw :: "document \<Rightarrow> int \<Rightarrow> point \<Rightarrow> drawer \<Rightarrow> (exn \<times> drawer) + drawer" where
  "draw doc now point s =
     (if \<not> isDrawing s then Inr s
      else case (if brushMode s then u_drawImage doc (px point) (py point) s
                 else Inr (u_drawLine (px point) (py point) s)) of
             Inl failed \<Rightarrow> Inl failed
           | Inr s1 \<Rightarrow> pushSample now point s1)"

definition stopDrawing :: "drawer \<Rightarrow> drawer" where
  "stopDrawing s = s\<lparr>isDrawing := False\<rparr>"

definition getIsDrawing :: "drawer \<Rightarrow> bool" where
  "getIsDrawing s = isDrawing s"

text \<open>
  A sequence of \<open>draw\<close> calls, each with the clock reading and the point it is given.
  Every call is an event handler of its own: an exception ends that call, is recorded,
  and the next call starts from the state the failed one left.
\<close>

fun draws :: "document \<Rightarrow> (int \<times> point) list \<Rightarrow> drawer \<Rightarrow> exn list \<times> drawer" where
  "draws doc [] s = ([], s)"
| "draws doc ((now, p) # evs) s =
     (case draw doc now p s of
        Inl (e, s1) \<Rightarrow> (e # fst (draws doc evs s1), snd (draws doc evs s1))
      | Inr s1 \<Rightarrow> draws doc evs s1)"

section \<open>Notions used to state the properties\<close>

text \<open>The exception a call ended with, if any, and the state it left.\<close>

definition thrown :: "(exn \<times> drawer) + drawer \<Rightarrow> exn option" where
  "thrown r = (case r of Inl (e, s) \<Rightarrow> Some e | Inr s \<Rightarrow> None)"

definition state_of :: "(exn \<times> drawer) + drawer \<Rightarrow> drawer" where
  "state_of r = (case r of Inl (e, s) \<Rightarrow> s | Inr s \<Rightarrow> s)"

text \<open>Whether the active image id names an image of the document.\<close>

definition resolves :: "document \<Rightarrow> drawer \<Rightarrow> bool" where
  "resolves doc s =
     (case getElementById doc (imageId s) of
        Some (ImageElement src) \<Rightarrow> True
      | Some OtherElement \<Rightarrow> False
      | None \<Rightarrow> False)"

text \<open>
  The values \<open>_drawImage\<close> computes in each call of a sequence of \<open>draw\<close> calls made
  in stamp mode while drawing.
\<close>

fun stampLocals :: "document \<Rightarrow> (int \<times> point) list \<Rightarrow> drawer \<Rightarrow> locals list" where
  "stampLocals doc [] s = []"
| "stampLocals doc ((now, p) # evs) s =
     drawImage_locals (px p) (py p) s # stampLocals doc evs (state_of (draw doc now p s))"

text \<open>The sample that holds the coordinates of a point and, as its \<open>t\<close>, the clock reading.\<close>

definition sampleAt :: "int \<times> point \<Rightarrow> sample" where
  "sampleAt ev = \<lparr>sx = px (snd ev), sy = py (snd ev), st = fst ev\<rparr>"

text \<open>The positions \<open>x, x + g, x + 2g, \<dots>\<close> below a limit, and the lines of a grid.\<close>

function gridPositions :: "nat \<Rightarrow> nat \<Rightarrow> nat \<Rightarrow> nat list" where
  "gridPositions x limit g =
     (if x < limit \<and> 0 < g then x # gridPositions (x + g) limit g else [])"
  by pat_completeness auto
termination
  by (relation "measure (\<lambda>(x, limit, g). limit - x)") auto

declare gridPositions.simps [simp del]

definition gridStrokes :: "canvas \<Rightarrow> nat \<Rightarrow> context2d \<Rightarrow> paint list" where
  "gridStrokes cv g c =
     map (\<lambda>x. Stroked [MoveTo (real x) 0, LineTo (real x) (real (height cv))]
                ''#ddd'' 0.5 (lineCap c) (lineJoin c) (ctx_filter c))
         (gridPositions 0 (width cv) g)
     @ map (\<lambda>y. Stroked [MoveTo 0 (real y), LineTo (real (width cv)) (real y)]
                ''#ddd'' 0.5 (lineCap c) (lineJoin c) (ctx_filter c))
         (gridPositions 0 (height cv) g)"

text \<open>
  A concrete run: a canvas of 40 by 20 pixels with a context nothing was drawn on, a
  document with one image, and the drawer the constructor builds on that canvas.
\<close>

definition blankContext :: context2d where
  "blankContext =
     \<lparr>strokeStyle = ''#000000'', lineWidth = 1, lineCap = ''butt'', lineJoin = ''miter'',
      ctx_filter = ''none'', path = [], painted = []\<rparr>"

definition smallCanvas :: jsvalue where
  "smallCanvas = HTMLCanvasElement \<lparr>width = 40, height = 20\<rparr> (Some blankContext)"

definition oneImage :: document where
  "oneImage ident = (if ident = ''brush'' then Some (ImageElement ''brush.png'') else None)"

definition noImage :: document where
  "noImage ident = None"

definition freshDrawer :: drawer where
  "freshDrawer =
     \<lparr>canvas = \<lparr>width = 40, height = 20\<rparr>,
      ctx = \<lparr>strokeStyle = ''#fff'', lineWidth = 2, lineCap = ''round'', lineJoin = ''round'',
             ctx_filter = ''none'', path = [MoveTo 0 0, LineTo 40 0],
             painted =
               [Stroked [MoveTo 0 0, LineTo 0 20] ''#ddd'' 0.5 ''round'' ''round'' ''none'',
                Stroked [MoveTo 20 0, LineTo 20 20] ''#ddd'' 0.5 ''round'' ''round'' ''none'',
                Stroked [MoveTo 0 0, LineTo 40 0] ''#ddd'' 0.5 ''round'' ''round'' ''none'']\<rparr>,
      canvasHistory = [], brushMode = False, showGrid = True, gridSize = 20,
      isDrawing = False, lastT = 0, lastX = 0, lastY = 0, imageId = None, bufferSize = 20,
      distanceBuffer = replicate 20 0, pointBuffer = replicate 20 \<lparr>px = 0, py = 0\<rparr>,
      bufferIndex = 0, circlesPerPixel = 0.1\<rparr>"

text \<open>
  What the constructor establishes and every operation keeps: a positive grid size, and
  buffers of \<open>bufferSize\<close> entries with the cursor inside them.
\<close>

definition wellformed :: "drawer \<Rightarrow> bool" where
  "wellformed s =
     (0 < gridSize s \<and> 0 < bufferSize s \<and>
      length (distanceBuffer s) = bufferSize s \<and>
      length (pointBuffer s) = bufferSize s \<and>
      bufferIndex s < bufferSize s)"

text \<open>
  A stroke in stamp mode: the drawer above with the image \<open>brush\<close> selected, started
  at the origin when the clock reads 0.
\<close>

definition stampStroke :: drawer where
  "stampStroke =
     startDrawing 0 \<lparr>px = 0, py = 0\<rparr>
       (setBrushImage (Some ''brush'') (setBrushMode True freshDrawer))"

section \<open>The grid and the surface\<close>

lemma verticalLines_fold:
  "0 < gridSize s \<Longrightarrow>
   verticalLines x s =
     Some (foldl (\<lambda>s x. verticalLine x s) s (gridPositions x (width (canvas s)) (gridSize s)))"
proof (induction "width (canvas s) - x" arbitrary: x s rule: less_induct)
  case less
  show ?case
  proof (cases "x < width (canvas s)")
    case True
    let ?s = "verticalLine x s"
    have "width (canvas ?s) - (x + gridSize s) < width (canvas s) - x"
      using True less.prems by (simp add: verticalLine_def)
    moreover have "0 < gridSize ?s" using less.prems by (simp add: verticalLine_def)
    ultimately have "verticalLines (x + gridSize s) ?s =
       Some (foldl (\<lambda>s x. verticalLine x s) ?s
               (gridPositions (x + gridSize s) (width (canvas ?s)) (gridSize ?s)))"
      using less.hyps[of ?s "x + gridSize s"] by simp
    then show ?thesis
      using True less.prems
      by (subst verticalLines.simps, subst gridPositions.simps)
         (simp add: verticalLine_def)
  next
    case False
    then show ?thesis
      by (subst verticalLines.simps, subst gridPositions.simps) simp
  qed
qed

lemma horizontalLines_fold:
  "0 < gridSize s \<Longrightarrow>
   horizontalLines y s =
     Some (foldl (\<lambda>s y. horizontalLine y s) s (gridPositions y (height (canvas s)) (gridSize s)))"
proof (induction "height (canvas s) - y" arbitrary: y s rule: less_induct)
  case less
  show ?case
  proof (cases "y < height (canvas s)")
    case True
    let ?s = "horizontalLine y s"
    have "height (canvas ?s) - (y + gridSize s) < height (canvas s) - y"
      using True less.prems by (simp add: horizontalLine_def)
    moreover have "0 < gridSize ?s" using less.prems by (simp add: horizontalLine_def)
    ultimately have "horizontalLines (y + gridSize s) ?s =
       Some (foldl (\<lambda>s y. horizontalLine y s) ?s
               (gridPositions (y + gridSize s) (height (canvas ?s)) (gridSize ?s)))"
      using less.hyps[of ?s "y + gridSize s"] by simp
    then show ?thesis
      using True less.prems
      by (subst horizontalLines.simps, subst gridPositions.simps)
         (simp add: horizontalLine_def)
  next
    case False
    then show ?thesis
      by (subst horizontalLines.simps, subst gridPositions.simps) simp
  qed
qed

text \<open>What a run of grid lines leaves: only the context differs, and in it only the path and the paint.\<close>

lemma verticalLine_fold_frame:
  "\<exists>p. foldl (\<lambda>s x. verticalLine x s) s xs =
        s\<lparr>ctx := (ctx s)\<lparr>path := p,
             painted := painted (ctx s) @
               map (\<lambda>x. Stroked [MoveTo (real x) 0, LineTo (real x) (real (height (canvas s)))]
                      (strokeStyle (ctx s)) (lineWidth (ctx s)) (lineCap (ctx s))
                      (lineJoin (ctx s)) (ctx_filter (ctx s))) xs\<rparr>\<rparr>"
proof (induction xs rule: rev_induct)
  case Nil
  show ?case by (rule exI[of _ "path (ctx s)"]) simp
next
  case (snoc x xs)
  then obtain p where
    "foldl (\<lambda>s x. verticalLine x s) s xs =
        s\<lparr>ctx := (ctx s)\<lparr>path := p,
             painted := painted (ctx s) @
               map (\<lambda>x. Stroked [MoveTo (real x) 0, LineTo (real x) (real (height (canvas s)))]
                      (strokeStyle (ctx s)) (lineWidth (ctx s)) (lineCap (ctx s))
                      (lineJoin (ctx s)) (ctx_filter (ctx s))) xs\<rparr>\<rparr>"
    by blast
  then show ?case
    by (intro exI[of _ "[MoveTo (real x) 0, LineTo (real x) (real (height (canvas s)))]"])
       (simp add: verticalLine_def ctx_stroke_def ctx_lineTo_def ctx_moveTo_def ctx_beginPath_def)
qed

lemma horizontalLine_fold_frame:
  "\<exists>p. foldl (\<lambda>s y. horizontalLine y s) s ys =
        s\<lparr>ctx := (ctx s)\<lparr>path := p,
             painted := painted (ctx s) @
               map (\<lambda>y. Stroked [MoveTo 0 (real y), LineTo (real (width (canvas s))) (real y)]
                      (strokeStyle (ctx s)) (lineWidth (ctx s)) (lineCap (ctx s))
                      (lineJoin (ctx s)) (ctx_filter (ctx s))) ys\<rparr>\<rparr>"
proof (induction ys rule: rev_induct)
  case Nil
  show ?case by (rule exI[of _ "path (ctx s)"]) simp
next
  case (snoc y ys)
  then obtain p where
    "foldl (\<lambda>s y. horizontalLine y s) s ys =
        s\<lparr>ctx := (ctx s)\<lparr>path := p,
             painted := painted (ctx s) @
               map (\<lambda>y. Stroked [MoveTo 0 (real y), LineTo (real (width (canvas s))) (real y)]
                      (strokeStyle (ctx s)) (lineWidth (ctx s)) (lineCap (ctx s))
                      (lineJoin (ctx s)) (ctx_filter (ctx s))) ys\<rparr>\<rparr>"
    by blast
  then show ?case
    by (intro exI[of _ "[MoveTo 0 (real y), LineTo (real (width (canvas s))) (real y)]"])
       (simp add: horizontalLine_def ctx_stroke_def ctx_lineTo_def ctx_moveTo_def ctx_beginPath_def)
qed

lemma grid_folds_frame:
  "\<exists>p. foldl (\<lambda>s y. horizontalLine y s) (foldl (\<lambda>s x. verticalLine x s) t xs) ys =
        t\<lparr>ctx := (ctx t)\<lparr>path := p,
             painted := painted (ctx t) @
               map (\<lambda>x. Stroked [MoveTo (real x) 0, LineTo (real x) (real (height (canvas t)))]
                      (strokeStyle (ctx t)) (lineWidth (ctx t)) (lineCap (ctx t))
                      (lineJoin (ctx t)) (ctx_filter (ctx t))) xs @
               map (\<lambda>y. Stroked [MoveTo 0 (real y), LineTo (real (width (canvas t))) (real y)]
                      (strokeStyle (ctx t)) (lineWidth (ctx t)) (lineCap (ctx t))
                      (lineJoin (ctx t)) (ctx_filter (ctx t))) ys\<rparr>\<rparr>"
proof -
  define t1 where "t1 = foldl (\<lambda>s x. verticalLine x s) t xs"
  obtain p1 where t1: "t1 = t\<lparr>ctx := (ctx t)\<lparr>path := p1,
             painted := painted (ctx t) @
               map (\<lambda>x. Stroked [MoveTo (real x) 0, LineTo (real x) (real (height (canvas t)))]
                      (strokeStyle (ctx t)) (lineWidth (ctx t)) (lineCap (ctx t))
                      (lineJoin (ctx t)) (ctx_filter (ctx t))) xs\<rparr>\<rparr>"
    unfolding t1_def using verticalLine_fold_frame[of t xs] by blast
  obtain p2 where t2: "foldl (\<lambda>s y. horizontalLine y s) t1 ys = t1\<lparr>ctx := (ctx t1)\<lparr>path := p2,
             painted := painted (ctx t1) @
               map (\<lambda>y. Stroked [MoveTo 0 (real y), LineTo (real (width (canvas t1))) (real y)]
                      (strokeStyle (ctx t1)) (lineWidth (ctx t1)) (lineCap (ctx t1))
                      (lineJoin (ctx t1)) (ctx_filter (ctx t1))) ys\<rparr>\<rparr>"
    using horizontalLine_fold_frame[of t1 ys] by blast
  have fields: "canvas t1 = canvas t" "strokeStyle (ctx t1) = strokeStyle (ctx t)"
    "lineWidth (ctx t1) = lineWidth (ctx t)" "lineCap (ctx t1) = lineCap (ctx t)"
    "lineJoin (ctx t1) = lineJoin (ctx t)" "ctx_filter (ctx t1) = ctx_filter (ctx t)"
    "painted (ctx t1) = painted (ctx t) @
               map (\<lambda>x. Stroked [MoveTo (real x) 0, LineTo (real x) (real (height (canvas t)))]
                      (strokeStyle (ctx t)) (lineWidth (ctx t)) (lineCap (ctx t))
                      (lineJoin (ctx t)) (ctx_filter (ctx t))) xs"
    by (simp_all add: t1)
  have "foldl (\<lambda>s y. horizontalLine y s) t1 ys =
        t\<lparr>ctx := (ctx t)\<lparr>path := p2,
             painted := painted (ctx t) @
               map (\<lambda>x. Stroked [MoveTo (real x) 0, LineTo (real x) (real (height (canvas t)))]
                      (strokeStyle (ctx t)) (lineWidth (ctx t)) (lineCap (ctx t))
                      (lineJoin (ctx t)) (ctx_filter (ctx t))) xs @
               map (\<lambda>y. Stroked [MoveTo 0 (real y), LineTo (real (width (canvas t))) (real y)]
                      (strokeStyle (ctx t)) (lineWidth (ctx t)) (lineCap (ctx t))
                      (lineJoin (ctx t)) (ctx_filter (ctx t))) ys\<rparr>\<rparr>"
    unfolding t2 fields by (simp add: t1)
  then show ?thesis unfolding t1_def by blast
qed

lemma u_drawGrid_result:
  assumes "0 < gridSize s"
  shows "\<exists>p. u_drawGrid s =
           Some (s\<lparr>ctx := (ctx s)\<lparr>strokeStyle := ''#fff'', lineWidth := 2, path := p,
                   painted := painted (ctx s) @ gridStrokes (canvas s) (gridSize s) (ctx s)\<rparr>\<rparr>)"
proof -
  define s0 where "s0 = s\<lparr>ctx := (ctx s)\<lparr>strokeStyle := ''#ddd'', lineWidth := 0.5\<rparr>\<rparr>"
  define xs where "xs = gridPositions 0 (width (canvas s)) (gridSize s)"
  define ys where "ys = gridPositions 0 (height (canvas s)) (gridSize s)"
  define s1 where "s1 = foldl (\<lambda>s x. verticalLine x s) s0 xs"
  define s2 where "s2 = foldl (\<lambda>s y. horizontalLine y s) s1 ys"
  have s0: "gridSize s0 = gridSize s" "canvas s0 = canvas s" by (simp_all add: s0_def)
  have s1: "gridSize s1 = gridSize s" "canvas s1 = canvas s"
    using verticalLine_fold_frame[of s0 xs] s0 unfolding s1_def by auto
  have v: "verticalLines 0 s0 = Some s1"
    using verticalLines_fold[of s0 0] assms s0 by (simp add: s1_def xs_def)
  have h: "horizontalLines 0 s1 = Some s2"
    using horizontalLines_fold[of s1 0] assms s1 by (simp add: s2_def ys_def)
  have grid: "u_drawGrid s = Some (s2\<lparr>ctx := (ctx s2)\<lparr>strokeStyle := ''#fff'', lineWidth := 2\<rparr>\<rparr>)"
    unfolding u_drawGrid_def s0_def[symmetric] by (simp only: v h Option.bind.simps)
  obtain p where "s2 =
        s0\<lparr>ctx := (ctx s0)\<lparr>path := p,
             painted := painted (ctx s0) @
               map (\<lambda>x. Stroked [MoveTo (real x) 0, LineTo (real x) (real (height (canvas s0)))]
                      (strokeStyle (ctx s0)) (lineWidth (ctx s0)) (lineCap (ctx s0))
                      (lineJoin (ctx s0)) (ctx_filter (ctx s0))) xs @
               map (\<lambda>y. Stroked [MoveTo 0 (real y), LineTo (real (width (canvas s0))) (real y)]
                      (strokeStyle (ctx s0)) (lineWidth (ctx s0)) (lineCap (ctx s0))
                      (lineJoin (ctx s0)) (ctx_filter (ctx s0))) ys\<rparr>\<rparr>"
    unfolding s2_def s1_def using grid_folds_frame[of s0 xs ys] by blast
  then have "s2\<lparr>ctx := (ctx s2)\<lparr>strokeStyle := ''#fff'', lineWidth := 2\<rparr>\<rparr> =
     s\<lparr>ctx := (ctx s)\<lparr>strokeStyle := ''#fff'', lineWidth := 2, path := p,
                   painted := painted (ctx s) @ gridStrokes (canvas s) (gridSize s) (ctx s)\<rparr>\<rparr>"
    by (simp add: s0_def gridStrokes_def xs_def ys_def)
  with grid show ?thesis by (intro exI[of _ p]) simp
qed

lemma u_clearCanvas_result:
  assumes "0 < gridSize s"
  shows "\<exists>c. u_clearCanvas s = Some (s\<lparr>ctx := c\<rparr>) \<and>
             painted c = (if showGrid s then gridStrokes (canvas s) (gridSize s) (ctx s) else []) \<and>
             lineCap c = lineCap (ctx s) \<and> lineJoin c = lineJoin (ctx s) \<and>
             ctx_filter c = ctx_filter (ctx s)"
proof (cases "showGrid s")
  case True
  let ?s1 = "s\<lparr>ctx := ctx_clearRect_all (ctx s)\<rparr>"
  have "0 < gridSize ?s1" using assms by simp
  from u_drawGrid_result[OF this] obtain p where
    "u_drawGrid ?s1 =
       Some (?s1\<lparr>ctx := (ctx ?s1)\<lparr>strokeStyle := ''#fff'', lineWidth := 2, path := p,
                   painted := painted (ctx ?s1) @ gridStrokes (canvas ?s1) (gridSize ?s1) (ctx ?s1)\<rparr>\<rparr>)"
    by blast
  then have "u_clearCanvas s =
       Some (s\<lparr>ctx := (ctx s)\<lparr>strokeStyle := ''#fff'', lineWidth := 2, path := p,
                   painted := gridStrokes (canvas s) (gridSize s) (ctx s)\<rparr>\<rparr>)"
    using True by (simp add: u_clearCanvas_def ctx_clearRect_all_def gridStrokes_def)
  then show ?thesis
    using True
    by (intro exI[of _ "(ctx s)\<lparr>strokeStyle := ''#fff'', lineWidth := 2, path := p,
                   painted := gridStrokes (canvas s) (gridSize s) (ctx s)\<rparr>"]) simp
next
  case False
  then show ?thesis
    by (intro exI[of _ "ctx_clearRect_all (ctx s)"])
       (simp add: u_clearCanvas_def ctx_clearRect_all_def)
qed

section \<open>Construction, clearing and the grid toggle\<close>

lemma u_init_result:
  assumes "0 < gridSize s"
  shows "\<exists>c. u_init s = Some (s\<lparr>ctx := c\<rparr>)"
proof (cases "showGrid s")
  case True
  let ?s1 = "s\<lparr>ctx := (ctx s)\<lparr>strokeStyle := ''#fff'', lineWidth := 2,
                                 lineCap := ''round'', lineJoin := ''round''\<rparr>\<rparr>"
  have "0 < gridSize ?s1" using assms by simp
  from u_drawGrid_result[OF this] obtain p where
    "u_drawGrid ?s1 =
       Some (?s1\<lparr>ctx := (ctx ?s1)\<lparr>strokeStyle := ''#fff'', lineWidth := 2, path := p,
                   painted := painted (ctx ?s1) @ gridStrokes (canvas ?s1) (gridSize ?s1) (ctx ?s1)\<rparr>\<rparr>)"
    by blast
  then show ?thesis
    using True
    by (intro exI[of _ "(ctx ?s1)\<lparr>strokeStyle := ''#fff'', lineWidth := 2, path := p,
                   painted := painted (ctx ?s1) @ gridStrokes (canvas ?s1) (gridSize ?s1) (ctx ?s1)\<rparr>"])
       (simp add: u_init_def)
next
  case False
  then show ?thesis
    by (intro exI[of _ "(ctx s)\<lparr>strokeStyle := ''#fff'', lineWidth := 2,
                                 lineCap := ''round'', lineJoin := ''round''\<rparr>"])
       (simp add: u_init_def)
qed

text \<open>The drawer of the concrete runs below is the one the constructor builds.\<close>

lemma constructor_smallCanvas: "constructor smallCanvas = Some (Inr freshDrawer)"
proof -
  have "u_init \<lparr>canvas = \<lparr>width = 40, height = 20\<rparr>, ctx = blankContext, canvasHistory = [],
                 brushMode = False, showGrid = True, gridSize = 20, isDrawing = False,
                 lastT = 0, lastX = 0, lastY = 0, imageId = None, bufferSize = 20,
                 distanceBuffer = replicate 20 0,
                 pointBuffer = replicate 20 \<lparr>px = 0, py = 0\<rparr>,
                 bufferIndex = 0, circlesPerPixel = 0.1\<rparr> = Some freshDrawer"
    by (simp add: u_init_def u_drawGrid_def blankContext_def verticalLines.simps
          horizontalLines.simps verticalLine_def horizontalLine_def ctx_stroke_def
          ctx_lineTo_def ctx_moveTo_def ctx_beginPath_def freshDrawer_def)
  then show ?thesis by (simp add: constructor_def smallCanvas_def)
qed

text \<open>
  C10: a drawer built on a canvas element with a 2D context is idle, in line mode, shows
  the grid with a grid size of 20, has no image id, a smoothing buffer of 20 zero
  distances and 20 points at the origin with the cursor at 0, and an empty history;
  construction throws for a missing value and for a value that is no canvas element.
\<close>

theorem constructor_initial_state:
  "(\<exists>s. constructor (HTMLCanvasElement cv (Some c)) = Some (Inr s) \<and>
        getIsDrawing s = False \<and> getBrushMode s = False \<and>
        showGrid s = True \<and> gridSize s = 20 \<and> imageId s = None \<and>
        bufferSize s = 20 \<and> length (distanceBuffer s) = 20 \<and>
        distanceBuffer s = replicate 20 0 \<and>
        pointBuffer s = replicate 20 \<lparr>px = 0, py = 0\<rparr> \<and>
        bufferIndex s = 0 \<and> canvasHistory s = []) \<and>
   constructor Undefined = Some (Inl (Error ''Invalid canvas element provided.'')) \<and>
   constructor Null = Some (Inl (Error ''Invalid canvas element provided.'')) \<and>
   constructor OtherValue = Some (Inl (Error ''Invalid canvas element provided.''))"
proof -
  let ?s0 = "\<lparr>canvas = cv, ctx = c, canvasHistory = [], brushMode = False,
              showGrid = True, gridSize = 20, isDrawing = False, lastT = 0,
              lastX = 0, lastY = 0, imageId = None, bufferSize = 20,
              distanceBuffer = replicate 20 0,
              pointBuffer = replicate 20 \<lparr>px = 0, py = 0\<rparr>,
              bufferIndex = 0, circlesPerPixel = 0.1\<rparr>"
  have "0 < gridSize ?s0" by simp
  from u_init_result[OF this] obtain c' where "u_init ?s0 = Some (?s0\<lparr>ctx := c'\<rparr>)"
    by blast
  then have "constructor (HTMLCanvasElement cv (Some c)) = Some (Inr (?s0\<lparr>ctx := c'\<rparr>))"
    by (simp add: constructor_def)
  then have "\<exists>s. constructor (HTMLCanvasElement cv (Some c)) = Some (Inr s) \<and>
        getIsDrawing s = False \<and> getBrushMode s = False \<and>
        showGrid s = True \<and> gridSize s = 20 \<and> imageId s = None \<and>
        bufferSize s = 20 \<and> length (distanceBuffer s) = 20 \<and>
        distanceBuffer s = replicate 20 0 \<and>
        pointBuffer s = replicate 20 \<lparr>px = 0, py = 0\<rparr> \<and>
        bufferIndex s = 0 \<and> canvasHistory s = []"
    by (intro exI[of _ "?s0\<lparr>ctx := c'\<rparr>"]) (simp add: getIsDrawing_def getBrushMode_def)
  then show ?thesis by (simp add: constructor_def)
qed

text \<open>
  C7: \<open>clear()\<close> returns, leaves \<open>getIsDrawing()\<close>, the brush mode and the grid flag
  as they were, and the history is empty afterwards; apart from the history only the
  context differs.
\<close>

theorem clear_keeps_state_and_empties_history:
  assumes "0 < gridSize s"
  shows "\<exists>s'. clear s = Some s' \<and>
              getIsDrawing s' = getIsDrawing s \<and> canvasHistory s' = [] \<and>
              getBrushMode s' = getBrushMode s \<and> showGrid s' = showGrid s \<and>
              s' = s\<lparr>canvasHistory := [], ctx := ctx s'\<rparr>"
proof -
  have "0 < gridSize (s\<lparr>canvasHistory := []\<rparr>)" using assms by simp
  from u_clearCanvas_result[OF this] obtain c where
    "clear s = Some (s\<lparr>canvasHistory := [], ctx := c\<rparr>)"
    unfolding clear_def by auto
  then show ?thesis
    by (intro exI[of _ "s\<lparr>canvasHistory := [], ctx := c\<rparr>"])
       (simp add: getIsDrawing_def getBrushMode_def)
qed

theorem clear_keeps_state_and_empties_history_witness:
  "0 < gridSize (startDrawing 7 \<lparr>px = 3, py = 4\<rparr> freshDrawer) \<and>
   (\<exists>s'. clear (startDrawing 7 \<lparr>px = 3, py = 4\<rparr> freshDrawer) = Some s' \<and>
         getIsDrawing s' = True \<and> canvasHistory s' = [] \<and>
         getBrushMode s' = False \<and> showGrid s' = True)"
proof -
  let ?s = "startDrawing 7 \<lparr>px = 3, py = 4\<rparr> freshDrawer"
  have h: "0 < gridSize ?s" by (simp add: startDrawing_def freshDrawer_def)
  from clear_keeps_state_and_empties_history [OF h] obtain s' where
    "clear ?s = Some s'" "getIsDrawing s' = getIsDrawing ?s" "canvasHistory s' = []"
    "getBrushMode s' = getBrushMode ?s" "showGrid s' = showGrid ?s"
    by blast
  then show ?thesis
    using h
    by (intro conjI exI[of _ s'])
       (simp_all add: startDrawing_def freshDrawer_def getIsDrawing_def getBrushMode_def)
qed

text \<open>
  C8: two calls of \<open>toggleGrid()\<close> return and bring \<open>showGrid\<close> back to its value;
  after each call the surface holds the grid lines alone when the grid is shown and
  nothing when it is not, whatever was painted before.
\<close>

theorem toggleGrid_twice_restores_flag:
  assumes "0 < gridSize s"
  shows "\<exists>s1 s2. toggleGrid s = Some s1 \<and> toggleGrid s1 = Some s2 \<and>
                 showGrid s1 = (\<not> showGrid s) \<and> showGrid s2 = showGrid s \<and>
                 painted (ctx s1) =
                   (if showGrid s1 then gridStrokes (canvas s) (gridSize s) (ctx s) else []) \<and>
                 painted (ctx s2) =
                   (if showGrid s2 then gridStrokes (canvas s) (gridSize s) (ctx s) else [])"
proof -
  let ?t = "s\<lparr>showGrid := \<not> showGrid s\<rparr>"
  have "0 < gridSize ?t" using assms by simp
  from u_clearCanvas_result[OF this] obtain c1 where
    c1: "toggleGrid s = Some (?t\<lparr>ctx := c1\<rparr>)"
        "painted c1 = (if showGrid ?t then gridStrokes (canvas ?t) (gridSize ?t) (ctx ?t) else [])"
        "lineCap c1 = lineCap (ctx ?t)" "lineJoin c1 = lineJoin (ctx ?t)"
        "ctx_filter c1 = ctx_filter (ctx ?t)"
    unfolding toggleGrid_def by blast
  let ?s1 = "?t\<lparr>ctx := c1\<rparr>"
  let ?u = "?s1\<lparr>showGrid := \<not> showGrid ?s1\<rparr>"
  have "0 < gridSize ?u" using assms by simp
  from u_clearCanvas_result[OF this] obtain c2 where
    c2: "toggleGrid ?s1 = Some (?u\<lparr>ctx := c2\<rparr>)"
        "painted c2 = (if showGrid ?u then gridStrokes (canvas ?u) (gridSize ?u) (ctx ?u) else [])"
    unfolding toggleGrid_def by blast
  have same: "gridStrokes (canvas s) (gridSize s) c1 = gridStrokes (canvas s) (gridSize s) (ctx s)"
    using c1(3-5) by (simp add: gridStrokes_def)
  show ?thesis
    using c1(1,2) c2 same
    by (intro exI[of _ ?s1] exI[of _ "?u\<lparr>ctx := c2\<rparr>"]) simp
qed

theorem toggleGrid_twice_restores_flag_witness:
  "0 < gridSize freshDrawer \<and>
   (\<exists>s1 s2. toggleGrid freshDrawer = Some s1 \<and> toggleGrid s1 = Some s2 \<and>
            showGrid s1 = False \<and> showGrid s2 = True \<and> painted (ctx s1) = [] \<and>
            painted (ctx s2) = painted (ctx freshDrawer))"
proof -
  have "gridPositions 0 40 20 = [0, 20]" "gridPositions 0 20 20 = [0]"
    by (simp_all add: gridPositions.simps)
  then have "gridStrokes (canvas freshDrawer) (gridSize freshDrawer) (ctx freshDrawer) =
             painted (ctx freshDrawer)"
    by (simp add: gridStrokes_def freshDrawer_def)
  moreover have h: "0 < gridSize freshDrawer" by (simp add: freshDrawer_def)
  moreover from toggleGrid_twice_restores_flag [OF h] obtain s1 s2 where
    "toggleGrid freshDrawer = Some s1" "toggleGrid s1 = Some s2"
    "showGrid s1 = (\<not> showGrid freshDrawer)" "showGrid s2 = showGrid freshDrawer"
    "painted (ctx s1) =
       (if showGrid s1 then gridStrokes (canvas freshDrawer) (gridSize freshDrawer) (ctx freshDrawer)
        else [])"
    "painted (ctx s2) =
       (if showGrid s2 then gridStrokes (canvas freshDrawer) (gridSize freshDrawer) (ctx freshDrawer)
        else [])"
    by blast
  moreover have "showGrid freshDrawer" by (simp add: freshDrawer_def)
  ultimately show ?thesis
    by (intro conjI exI[of _ s1] exI[of _ s2]) simp_all
qed

section \<open>Rendering and recording a segment\<close>

lemma numCircles_positive: "1 \<le> numCircles (drawImage_locals x y s)"
  by (simp add: drawImage_locals_def Let_def)

lemma indices_nonempty: "[0..numCircles (drawImage_locals x y s)] =
    0 # [1..numCircles (drawImage_locals x y s)]"
  using numCircles_positive[of x y s] by (simp add: upto_rec1)

lemma currentD_locals:
  "currentD (drawImage_locals x y s) = sqrt ((x - lastX s)\<^sup>2 + (y - lastY s)\<^sup>2)"
  by (simp add: drawImage_locals_def Let_def)

lemma avgDistance_locals:
  "avgDistance (drawImage_locals x y s) =
     averageDistance (addToBuffers (currentD (drawImage_locals x y s)) x y s)"
  by (simp add: drawImage_locals_def Let_def)

lemma avgDistanceLast_locals: "avgDistanceLast (drawImage_locals x y s) = averageDistance s"
  by (simp add: drawImage_locals_def Let_def)

lemma resolves_ctx [simp]: "resolves doc (s\<lparr>ctx := c\<rparr>) = resolves doc s"
  by (simp add: resolves_def)

lemma resolves_addToBuffers [simp]: "resolves doc (addToBuffers d x y s) = resolves doc s"
  by (simp add: resolves_def addToBuffers_def)

lemma stampLoop_unresolved:
  "\<not> resolves doc s \<Longrightarrow> stampLoop doc x y s0 l (i # is) s = Inl (TypeError, s)"
  by (simp add: resolves_def ctx_drawImage_def Let_def split: option.splits element.splits)

lemma stampLoop_resolved:
  "resolves doc s \<Longrightarrow> \<exists>c. stampLoop doc x y s0 l is s = Inr (s\<lparr>ctx := c\<rparr>)"
proof (induction "is" arbitrary: s)
  case Nil
  show ?case by (intro exI[of _ "ctx s"]) simp
next
  case (Cons i "is")
  from Cons.prems obtain src where img: "getElementById doc (imageId s) = Some (ImageElement src)"
    by (auto simp: resolves_def split: option.splits element.splits)
  define c1 where "c1 = (ctx s)\<lparr>painted := painted (ctx s) @
      [Stamped src (circleX (drawImage_stamp x y s0 l i) - 100)
         (circleY (drawImage_stamp x y s0 l i) - 100) 200 200 (ctx_filter (ctx s))]\<rparr>"
  have step: "stampLoop doc x y s0 l (i # is) s = stampLoop doc x y s0 l is (s\<lparr>ctx := c1\<rparr>)"
    by (simp add: img ctx_drawImage_def Let_def c1_def)
  have "resolves doc (s\<lparr>ctx := c1\<rparr>)" using Cons.prems by simp
  from Cons.IH[OF this] obtain c where
    "stampLoop doc x y s0 l is (s\<lparr>ctx := c1\<rparr>) = Inr (s\<lparr>ctx := c1\<rparr>\<lparr>ctx := c\<rparr>)"
    by blast
  with step show ?case by (intro exI[of _ c]) simp
qed

lemma u_drawImage_unresolved:
  "\<not> resolves doc s \<Longrightarrow>
   u_drawImage doc x y s =
     Inl (TypeError, addToBuffers (currentD (drawImage_locals x y s)) x y s)"
  unfolding u_drawImage_def Let_def
  by (subst indices_nonempty) (simp add: stampLoop_unresolved del: stampLoop.simps)

lemma u_drawImage_resolved:
  "resolves doc s \<Longrightarrow>
   \<exists>c. u_drawImage doc x y s =
     Inr ((addToBuffers (currentD (drawImage_locals x y s)) x y s)\<lparr>ctx := c\<rparr>)"
  unfolding u_drawImage_def Let_def
  using stampLoop_resolved[of doc "addToBuffers (currentD (drawImage_locals x y s)) x y s"]
  by simp

lemma pushSample_open_stroke:
  "canvasHistory s = hs @ [f # rest] \<Longrightarrow>
   pushSample now p s =
     Inr (s\<lparr>canvasHistory := hs @ [f # rest @ [\<lparr>sx = px p, sy = py p, st = now - st f\<rparr>]],
           lastX := px p, lastY := py p\<rparr>)"
  by (simp add: pushSample_def)

lemma pushSample_frame:
  "\<exists>h lx ly. state_of (pushSample now p s) = s\<lparr>canvasHistory := h, lastX := lx, lastY := ly\<rparr>"
proof (cases "thrown (pushSample now p s)")
  case None
  then show ?thesis
    by (auto simp: pushSample_def thrown_def state_of_def split: list.splits)
next
  case (Some e)
  then have "state_of (pushSample now p s) = s"
    by (auto simp: pushSample_def thrown_def state_of_def split: list.splits)
  then show ?thesis
    by (intro exI[of _ "canvasHistory s"] exI[of _ "lastX s"] exI[of _ "lastY s"]) simp
qed

lemma draw_idle: "\<not> isDrawing s \<Longrightarrow> draw doc now p s = Inr s"
  by (simp add: draw_def)

lemma draw_stamp_unresolved:
  "isDrawing s \<Longrightarrow> brushMode s \<Longrightarrow> \<not> resolves doc s \<Longrightarrow>
   draw doc now p s =
     Inl (TypeError, addToBuffers (currentD (drawImage_locals (px p) (py p) s)) (px p) (py p) s)"
  by (simp add: draw_def u_drawImage_unresolved)

lemma draw_stamp_resolved:
  assumes "isDrawing s" "brushMode s" "resolves doc s" "canvasHistory s = hs @ [f # rest]"
  shows "\<exists>c. draw doc now p s =
     Inr ((addToBuffers (currentD (drawImage_locals (px p) (py p) s)) (px p) (py p) s)
           \<lparr>ctx := c,
            canvasHistory := hs @ [f # rest @ [\<lparr>sx = px p, sy = py p, st = now - st f\<rparr>]],
            lastX := px p, lastY := py p\<rparr>)"
proof -
  from u_drawImage_resolved[OF assms(3)] obtain c where
    c: "u_drawImage doc (px p) (py p) s =
       Inr ((addToBuffers (currentD (drawImage_locals (px p) (py p) s)) (px p) (py p) s)\<lparr>ctx := c\<rparr>)"
    by blast
  have "canvasHistory ((addToBuffers (currentD (drawImage_locals (px p) (py p) s)) (px p) (py p) s)\<lparr>ctx := c\<rparr>)
        = hs @ [f # rest]"
    using assms(4) by (simp add: addToBuffers_def)
  from pushSample_open_stroke[OF this] show ?thesis
    using assms(1,2) c by (intro exI[of _ c]) (simp add: draw_def)
qed

lemma draw_line:
  assumes "isDrawing s" "\<not> brushMode s" "canvasHistory s = hs @ [f # rest]"
  shows "draw doc now p s =
     Inr ((u_drawLine (px p) (py p) s)
           \<lparr>canvasHistory := hs @ [f # rest @ [\<lparr>sx = px p, sy = py p, st = now - st f\<rparr>]],
            lastX := px p, lastY := py p\<rparr>)"
proof -
  have "canvasHistory (u_drawLine (px p) (py p) s) = hs @ [f # rest]"
    using assms(3) by (simp add: u_drawLine_def)
  from pushSample_open_stroke[OF this] show ?thesis
    using assms(1,2) by (simp add: draw_def)
qed

lemma draw_stamp_state:
  assumes "isDrawing s" "brushMode s"
  shows "\<exists>c h lx ly. state_of (draw doc now p s) =
     (addToBuffers (currentD (drawImage_locals (px p) (py p) s)) (px p) (py p) s)
       \<lparr>ctx := c, canvasHistory := h, lastX := lx, lastY := ly\<rparr>"
proof (cases "resolves doc s")
  case False
  let ?s1 = "addToBuffers (currentD (drawImage_locals (px p) (py p) s)) (px p) (py p) s"
  have "state_of (draw doc now p s) = ?s1"
    using draw_stamp_unresolved[OF assms False] by (simp add: state_of_def)
  then show ?thesis
    by (intro exI[of _ "ctx ?s1"] exI[of _ "canvasHistory ?s1"] exI[of _ "lastX ?s1"]
              exI[of _ "lastY ?s1"]) simp
next
  case True
  from u_drawImage_resolved[OF True] obtain c where
    c: "u_drawImage doc (px p) (py p) s =
       Inr ((addToBuffers (currentD (drawImage_locals (px p) (py p) s)) (px p) (py p) s)\<lparr>ctx := c\<rparr>)"
    by blast
  let ?s1 = "(addToBuffers (currentD (drawImage_locals (px p) (py p) s)) (px p) (py p) s)\<lparr>ctx := c\<rparr>"
  from pushSample_frame[of now p ?s1] obtain h lx ly where
    "state_of (pushSample now p ?s1) = ?s1\<lparr>canvasHistory := h, lastX := lx, lastY := ly\<rparr>"
    by blast
  moreover have "draw doc now p s = pushSample now p ?s1"
    using assms c by (simp add: draw_def)
  ultimately show ?thesis
    by (intro exI[of _ c] exI[of _ h] exI[of _ lx] exI[of _ ly]) simp
qed

section \<open>The invariant of the drawer\<close>

lemma wellformed_constructor:
  "constructor v = Some (Inr s) \<Longrightarrow> wellformed s"
proof (cases v)
  case (HTMLCanvasElement cv getContext)
  assume built: "constructor v = Some (Inr s)"
  show ?thesis
  proof (cases getContext)
    case None
    with built HTMLCanvasElement show ?thesis by (simp add: constructor_def)
  next
    case (Some c)
    let ?s0 = "\<lparr>canvas = cv, ctx = c, canvasHistory = [], brushMode = False,
              showGrid = True, gridSize = 20, isDrawing = False, lastT = 0,
              lastX = 0, lastY = 0, imageId = None, bufferSize = 20,
              distanceBuffer = replicate 20 0,
              pointBuffer = replicate 20 \<lparr>px = 0, py = 0\<rparr>,
              bufferIndex = 0, circlesPerPixel = 0.1\<rparr>"
    have "0 < gridSize ?s0" by simp
    from u_init_result[OF this] obtain c' where "u_init ?s0 = Some (?s0\<lparr>ctx := c'\<rparr>)"
      by blast
    with built HTMLCanvasElement Some have "s = ?s0\<lparr>ctx := c'\<rparr>"
      by (simp add: constructor_def)
    then show ?thesis by (simp add: wellformed_def)
  qed
qed (simp_all add: constructor_def)

lemma wellformed_clear: "wellformed s \<Longrightarrow> clear s = Some s' \<Longrightarrow> wellformed s'"
proof -
  assume wf: "wellformed s" and c: "clear s = Some s'"
  have "0 < gridSize (s\<lparr>canvasHistory := []\<rparr>)" using wf by (simp add: wellformed_def)
  from u_clearCanvas_result[OF this] obtain c' where
    "clear s = Some (s\<lparr>canvasHistory := [], ctx := c'\<rparr>)"
    unfolding clear_def by auto
  with c have "s' = s\<lparr>canvasHistory := [], ctx := c'\<rparr>" by simp
  then show ?thesis using wf by (simp add: wellformed_def)
qed

lemma wellformed_toggleGrid: "wellformed s \<Longrightarrow> toggleGrid s = Some s' \<Longrightarrow> wellformed s'"
proof -
  assume wf: "wellformed s" and t: "toggleGrid s = Some s'"
  have "0 < gridSize (s\<lparr>showGrid := \<not> showGrid s\<rparr>)" using wf by (simp add: wellformed_def)
  from u_clearCanvas_result[OF this] obtain c' where
    "toggleGrid s = Some (s\<lparr>showGrid := \<not> showGrid s, ctx := c'\<rparr>)"
    unfolding toggleGrid_def by auto
  with t have "s' = s\<lparr>showGrid := \<not> showGrid s, ctx := c'\<rparr>" by simp
  then show ?thesis using wf by (simp add: wellformed_def)
qed

lemma wellformed_setters:
  "wellformed s \<Longrightarrow> wellformed (setBrushMode enabled s)"
  "wellformed s \<Longrightarrow> wellformed (setBrushImage ident s)"
  "wellformed s \<Longrightarrow> wellformed (stopDrawing s)"
  "wellformed s \<Longrightarrow> wellformed (startDrawing now p s)"
  by (simp_all add: wellformed_def setBrushMode_def setBrushImage_def stopDrawing_def
        startDrawing_def)

lemma wellformed_addToBuffers: "wellformed s \<Longrightarrow> wellformed (addToBuffers d x y s)"
  by (simp add: wellformed_def addToBuffers_def assign_def)

lemma wellformed_draw: "wellformed s \<Longrightarrow> wellformed (state_of (draw doc now p s))"
proof -
  assume wf: "wellformed s"
  show ?thesis
  proof (cases "isDrawing s")
    case False
    then show ?thesis using wf by (simp add: draw_idle state_of_def)
  next
    case True
    show ?thesis
    proof (cases "brushMode s")
      case stamp: True
      from draw_stamp_state[OF True stamp, of doc now p] obtain c h lx ly where
        "state_of (draw doc now p s) =
           (addToBuffers (currentD (drawImage_locals (px p) (py p) s)) (px p) (py p) s)
             \<lparr>ctx := c, canvasHistory := h, lastX := lx, lastY := ly\<rparr>"
        by blast
      then show ?thesis
        using wellformed_addToBuffers[OF wf, of "currentD (drawImage_locals (px p) (py p) s)" "px p" "py p"]
        by (simp add: wellformed_def)
    next
      case line: False
      from pushSample_frame[of now p "u_drawLine (px p) (py p) s"] obtain h lx ly where
        "state_of (pushSample now p (u_drawLine (px p) (py p) s)) =
           (u_drawLine (px p) (py p) s)\<lparr>canvasHistory := h, lastX := lx, lastY := ly\<rparr>"
        by blast
      moreover have "draw doc now p s = pushSample now p (u_drawLine (px p) (py p) s)"
        using True line by (simp add: draw_def)
      ultimately show ?thesis using wf by (simp add: wellformed_def u_drawLine_def)
    qed
  qed
qed

section \<open>Drawing while idle\<close>

text \<open>
  C6: while the drawer is idle every \<open>draw\<close> call returns without an exception and
  leaves the whole state, the painted surface included, as it was; so does any
  sequence of such calls.
\<close>

theorem draw_while_idle_is_noop:
  assumes "getIsDrawing s = False"
  shows "draw doc now p s = Inr s \<and> draws doc evs s = ([], s)"
proof -
  have idle: "\<not> isDrawing s" using assms by (simp add: getIsDrawing_def)
  have "draws doc evs s = ([], s)"
    by (induction evs) (auto simp: draw_idle[OF idle])
  then show ?thesis by (simp add: draw_idle[OF idle])
qed

theorem draw_while_idle_is_noop_witness:
  "getIsDrawing freshDrawer = False \<and>
   draw oneImage 3 \<lparr>px = 5, py = 6\<rparr> freshDrawer = Inr freshDrawer \<and>
   draws oneImage [(4, \<lparr>px = 7, py = 8\<rparr>), (9, \<lparr>px = 1, py = 2\<rparr>)] freshDrawer = ([], freshDrawer)"
proof -
  have h: "getIsDrawing freshDrawer = False" by (simp add: getIsDrawing_def freshDrawer_def)
  show ?thesis
    using h draw_while_idle_is_noop [OF h, of oneImage 3 "\<lparr>px = 5, py = 6\<rparr>"
        "[(4, \<lparr>px = 7, py = 8\<rparr>), (9, \<lparr>px = 1, py = 2\<rparr>)]"]
    by simp
qed

section \<open>The number of stamps\<close>

text \<open>
  C4: the number of stamps \<open>_drawImage\<close> computes is at least 1 for any two points, it
  is 1 when the new point is the last point, and the divisor of the interpolation step
  is not zero.
\<close>

theorem numCircles_at_least_one:
  "1 \<le> numCircles (drawImage_locals x y s) \<and>
   numCircles (drawImage_locals (lastX s) (lastY s) s) = 1 \<and>
   real_of_int (numCircles (drawImage_locals x y s)) \<noteq> 0"
proof -
  have "1 \<le> numCircles (drawImage_locals x y s)" by (rule numCircles_positive)
  moreover have "numCircles (drawImage_locals (lastX s) (lastY s) s) = 1"
    by (simp add: drawImage_locals_def Let_def)
  ultimately show ?thesis by simp
qed

section \<open>A stamp image that does not resolve\<close>

text \<open>
  C5, as the code has it: in stamp mode while drawing, when the image id does not resolve
  to an image, \<open>draw\<close> ends with the \<open>TypeError\<close> of the first \<open>drawImage\<close>. By then
  the smoothing buffers have been written; nothing is painted, no sample is recorded,
  the last point is not moved and the drawer is still drawing.
\<close>

theorem draw_unresolved_image_throws:
  assumes "getIsDrawing s = True" and "getBrushMode s = True" and "resolves doc s = False"
  shows "thrown (draw doc now p s) = Some TypeError \<and>
         state_of (draw doc now p s) =
           addToBuffers (sqrt ((px p - lastX s)\<^sup>2 + (py p - lastY s)\<^sup>2)) (px p) (py p) s \<and>
         painted (ctx (state_of (draw doc now p s))) = painted (ctx s) \<and>
         canvasHistory (state_of (draw doc now p s)) = canvasHistory s \<and>
         lastX (state_of (draw doc now p s)) = lastX s \<and>
         lastY (state_of (draw doc now p s)) = lastY s \<and>
         getIsDrawing (state_of (draw doc now p s)) = True"
proof -
  have "draw doc now p s =
     Inl (TypeError, addToBuffers (currentD (drawImage_locals (px p) (py p) s)) (px p) (py p) s)"
    using assms by (intro draw_stamp_unresolved) (simp_all add: getIsDrawing_def getBrushMode_def)
  then show ?thesis
    using assms(1)
    by (simp add: thrown_def state_of_def currentD_locals addToBuffers_def getIsDrawing_def)
qed

theorem draw_unresolved_image_throws_witness:
  "getIsDrawing (startDrawing 0 \<lparr>px = 0, py = 0\<rparr> (setBrushMode True freshDrawer)) = True \<and>
   getBrushMode (startDrawing 0 \<lparr>px = 0, py = 0\<rparr> (setBrushMode True freshDrawer)) = True \<and>
   resolves oneImage (startDrawing 0 \<lparr>px = 0, py = 0\<rparr> (setBrushMode True freshDrawer)) = False \<and>
   thrown (draw oneImage 5 \<lparr>px = 30, py = 0\<rparr>
            (startDrawing 0 \<lparr>px = 0, py = 0\<rparr> (setBrushMode True freshDrawer))) = Some TypeError \<and>
   canvasHistory (state_of (draw oneImage 5 \<lparr>px = 30, py = 0\<rparr>
            (startDrawing 0 \<lparr>px = 0, py = 0\<rparr> (setBrushMode True freshDrawer))))
     = [[\<lparr>sx = 0, sy = 0, st = 0\<rparr>]]"
proof -
  let ?s = "startDrawing 0 \<lparr>px = 0, py = 0\<rparr> (setBrushMode True freshDrawer)"
  have h: "getIsDrawing ?s = True" "getBrushMode ?s = True" "resolves oneImage ?s = False"
    by (simp_all add: getIsDrawing_def getBrushMode_def resolves_def getElementById_def
          oneImage_def startDrawing_def setBrushMode_def freshDrawer_def)
  have "canvasHistory ?s = [[\<lparr>sx = 0, sy = 0, st = 0\<rparr>]]"
    by (simp add: startDrawing_def setBrushMode_def freshDrawer_def)
  moreover have "thrown (draw oneImage 5 \<lparr>px = 30, py = 0\<rparr> ?s) = Some TypeError"
    "canvasHistory (state_of (draw oneImage 5 \<lparr>px = 30, py = 0\<rparr> ?s)) = canvasHistory ?s"
    using draw_unresolved_image_throws [OF h, of 5 "\<lparr>px = 30, py = 0\<rparr>"] by blast+
  ultimately show ?thesis
    using h by (simp only: simp_thms)
qed

text \<open>
  C5 as the specification words it fails for a drawer in stamp mode with no image id:
  the call throws and the history keeps the one sample of \<open>startDrawing\<close>.
\<close>

theorem draw_unresolved_image_counterexample:
  "thrown (draw noImage 5 \<lparr>px = 30, py = 0\<rparr>
            (startDrawing 0 \<lparr>px = 0, py = 0\<rparr> (setBrushMode True freshDrawer))) = Some TypeError \<and>
   canvasHistory (state_of (draw noImage 5 \<lparr>px = 30, py = 0\<rparr>
            (startDrawing 0 \<lparr>px = 0, py = 0\<rparr> (setBrushMode True freshDrawer))))
     = [[\<lparr>sx = 0, sy = 0, st = 0\<rparr>]]"
proof -
  let ?s = "startDrawing 0 \<lparr>px = 0, py = 0\<rparr> (setBrushMode True freshDrawer)"
  have "isDrawing ?s" "brushMode ?s" "\<not> resolves noImage ?s"
    by (simp_all add: resolves_def getElementById_def noImage_def startDrawing_def
          setBrushMode_def freshDrawer_def)
  from draw_stamp_unresolved[OF this, of 5 "\<lparr>px = 30, py = 0\<rparr>"] show ?thesis
    by (simp add: thrown_def state_of_def addToBuffers_def startDrawing_def setBrushMode_def
          freshDrawer_def)
qed

section \<open>Sequences of draw calls on an open stroke\<close>

lemma draws_unresolved:
  "isDrawing s \<Longrightarrow> brushMode s \<Longrightarrow> \<not> resolves doc s \<Longrightarrow>
   fst (draws doc evs s) = replicate (length evs) TypeError \<and>
   canvasHistory (snd (draws doc evs s)) = canvasHistory s"
proof (induction evs arbitrary: s)
  case Nil
  show ?case by simp
next
  case (Cons ev evs)
  obtain now p where ev: "ev = (now, p)" by (cases ev)
  let ?s1 = "addToBuffers (currentD (drawImage_locals (px p) (py p) s)) (px p) (py p) s"
  have d: "draw doc now p s = Inl (TypeError, ?s1)"
    using Cons.prems by (rule draw_stamp_unresolved)
  have "isDrawing ?s1" "brushMode ?s1"
    using Cons.prems by (simp_all add: addToBuffers_def)
  moreover have "\<not> resolves doc ?s1" using Cons.prems by simp
  ultimately have "fst (draws doc evs ?s1) = replicate (length evs) TypeError \<and>
      canvasHistory (snd (draws doc evs ?s1)) = canvasHistory ?s1"
    by (rule Cons.IH)
  then show ?case
    by (simp add: ev d addToBuffers_def)
qed

lemma draws_recorded:
  "isDrawing s \<Longrightarrow> \<not> (brushMode s \<and> \<not> resolves doc s) \<Longrightarrow>
   canvasHistory s = hs @ [f # rest] \<Longrightarrow>
   fst (draws doc evs s) = [] \<and>
   canvasHistory (snd (draws doc evs s)) =
     hs @ [f # rest @ map (\<lambda>ev. \<lparr>sx = px (snd ev), sy = py (snd ev), st = fst ev - st f\<rparr>) evs]"
proof (induction evs arbitrary: s rest)
  case Nil
  then show ?case by simp
next
  case (Cons ev evs)
  obtain now p where ev: "ev = (now, p)" by (cases ev)
  let ?smp = "\<lparr>sx = px p, sy = py p, st = now - st f\<rparr>"
  have "\<exists>s1. draw doc now p s = Inr s1 \<and> isDrawing s1 \<and>
             \<not> (brushMode s1 \<and> \<not> resolves doc s1) \<and>
             canvasHistory s1 = hs @ [f # (rest @ [?smp])]"
  proof (cases "brushMode s")
    case True
    then have r: "resolves doc s" using Cons.prems(2) by simp
    from draw_stamp_resolved[OF Cons.prems(1) True r Cons.prems(3), of now p]
    obtain c where "draw doc now p s =
       Inr ((addToBuffers (currentD (drawImage_locals (px p) (py p) s)) (px p) (py p) s)
             \<lparr>ctx := c, canvasHistory := hs @ [f # rest @ [?smp]],
              lastX := px p, lastY := py p\<rparr>)"
      by blast
    then show ?thesis
      using Cons.prems(1) r by (simp add: addToBuffers_def resolves_def)
  next
    case False
    from draw_line[OF Cons.prems(1) False Cons.prems(3), of doc now p]
    show ?thesis
      using Cons.prems(1) False by (simp add: u_drawLine_def)
  qed
  then obtain s1 where s1: "draw doc now p s = Inr s1" "isDrawing s1"
      "\<not> (brushMode s1 \<and> \<not> resolves doc s1)" "canvasHistory s1 = hs @ [f # (rest @ [?smp])]"
    by blast
  from Cons.IH[OF s1(2,3,4)] show ?case
    by (simp add: ev s1(1))
qed

text \<open>
  C9: \<open>startDrawing(p)\<close> on a drawer that is already drawing keeps every recorded
  stroke and adds one stroke holding the sample of \<open>p\<close> with \<open>t = 0\<close>; the drawer is
  still drawing, the distances are all 0, the points all \<open>p\<close> and the cursor is 0. The
  \<open>draw\<close> calls that follow leave the earlier strokes alone: each call that returns
  adds its sample to the new stroke, and in stamp mode with an image id that does not
  resolve every call throws and adds nothing.
\<close>

theorem startDrawing_while_drawing:
  assumes "getIsDrawing s = True"
  shows "canvasHistory (startDrawing now p s) =
           canvasHistory s @ [[\<lparr>sx = px p, sy = py p, st = 0\<rparr>]] \<and>
         getIsDrawing (startDrawing now p s) = True \<and>
         distanceBuffer (startDrawing now p s) = replicate (length (distanceBuffer s)) 0 \<and>
         pointBuffer (startDrawing now p s) = replicate (length (pointBuffer s)) p \<and>
         bufferIndex (startDrawing now p s) = 0 \<and>
         canvasHistory (snd (draws doc evs (startDrawing now p s))) =
           canvasHistory s @
           [\<lparr>sx = px p, sy = py p, st = 0\<rparr> #
            (if getBrushMode s \<and> \<not> resolves doc s then [] else map sampleAt evs)]"
proof -
  let ?s1 = "startDrawing now p s"
  have start: "isDrawing ?s1" "brushMode ?s1 = brushMode s" "resolves doc ?s1 = resolves doc s"
    "canvasHistory ?s1 = canvasHistory s @ [\<lparr>sx = px p, sy = py p, st = 0\<rparr> # []]"
    by (simp_all add: startDrawing_def resolves_def)
  have later: "canvasHistory (snd (draws doc evs ?s1)) =
           canvasHistory s @
           [\<lparr>sx = px p, sy = py p, st = 0\<rparr> #
            (if getBrushMode s \<and> \<not> resolves doc s then [] else map sampleAt evs)]"
  proof (cases "brushMode s \<and> \<not> resolves doc s")
    case True
    then have "brushMode ?s1" "\<not> resolves doc ?s1" using start by simp_all
    from draws_unresolved[OF start(1) this, of evs] show ?thesis
      using True start(4) by (simp add: getBrushMode_def)
  next
    case False
    then have "\<not> (brushMode ?s1 \<and> \<not> resolves doc ?s1)" using start by simp
    from draws_recorded[OF start(1) this start(4), of evs] show ?thesis
      using False by (auto simp: getBrushMode_def sampleAt_def)
  qed
  have "map (\<lambda>_. \<lparr>px = px p, py = py p\<rparr>) (pointBuffer s) = replicate (length (pointBuffer s)) p"
    by (simp add: map_replicate_const)
  moreover have "map (\<lambda>_. 0::real) (distanceBuffer s) = replicate (length (distanceBuffer s)) 0"
    by (simp add: map_replicate_const)
  ultimately show ?thesis
    using later by (simp add: startDrawing_def getIsDrawing_def)
qed

theorem startDrawing_while_drawing_witness:
  "getIsDrawing (startDrawing 0 \<lparr>px = 1, py = 1\<rparr> freshDrawer) = True \<and>
   canvasHistory
     (snd (draws noImage [(15, \<lparr>px = 6, py = 8\<rparr>), (21, \<lparr>px = 9, py = 8\<rparr>)]
            (startDrawing 10 \<lparr>px = 5, py = 5\<rparr> (startDrawing 0 \<lparr>px = 1, py = 1\<rparr> freshDrawer)))) =
     [[\<lparr>sx = 1, sy = 1, st = 0\<rparr>],
      [\<lparr>sx = 5, sy = 5, st = 0\<rparr>, \<lparr>sx = 6, sy = 8, st = 15\<rparr>, \<lparr>sx = 9, sy = 8, st = 21\<rparr>]]"
proof -
  let ?s = "startDrawing 0 \<lparr>px = 1, py = 1\<rparr> freshDrawer"
  have h: "getIsDrawing ?s = True" by (simp add: getIsDrawing_def startDrawing_def)
  have "canvasHistory (snd (draws noImage [(15, \<lparr>px = 6, py = 8\<rparr>), (21, \<lparr>px = 9, py = 8\<rparr>)]
            (startDrawing 10 \<lparr>px = 5, py = 5\<rparr> ?s))) =
           canvasHistory ?s @
           [\<lparr>sx = px \<lparr>px = 5, py = 5\<rparr>, sy = py \<lparr>px = 5, py = 5\<rparr>, st = 0\<rparr> #
            (if getBrushMode ?s \<and> \<not> resolves noImage ?s then []
             else map sampleAt [(15, \<lparr>px = 6, py = 8\<rparr>), (21, \<lparr>px = 9, py = 8\<rparr>)])]"
    using startDrawing_while_drawing [OF h, of 10 "\<lparr>px = 5, py = 5\<rparr>" noImage
        "[(15, \<lparr>px = 6, py = 8\<rparr>), (21, \<lparr>px = 9, py = 8\<rparr>)]"] by blast
  then show ?thesis
    using h by (simp add: getBrushMode_def startDrawing_def freshDrawer_def sampleAt_def)
qed

section \<open>The recorded time of a sample\<close>

text \<open>
  C2 at a concrete run: a stroke started when the clock reads 1000 and continued when
  it reads 1005. The sample \<open>draw\<close> records has \<open>t = 1005\<close>, the clock reading itself:
  the value subtracted is the \<open>t\<close> of the first sample, which is 0, and not the start
  time, which \<open>lastT\<close> holds.
\<close>

theorem draw_records_clock_reading:
  "map st (last (canvasHistory (state_of
      (draw noImage 1005 \<lparr>px = 10, py = 0\<rparr>
         (startDrawing 1000 \<lparr>px = 0, py = 0\<rparr> freshDrawer))))) = [0, 1005] \<and>
   lastT (startDrawing 1000 \<lparr>px = 0, py = 0\<rparr> freshDrawer) = 1000"
proof -
  let ?s = "startDrawing 1000 \<lparr>px = 0, py = 0\<rparr> freshDrawer"
  have "isDrawing ?s" "\<not> brushMode ?s"
    "canvasHistory ?s = [] @ [\<lparr>sx = 0, sy = 0, st = 0\<rparr> # []]"
    by (simp_all add: startDrawing_def freshDrawer_def)
  from draw_line[OF this, of noImage 1005 "\<lparr>px = 10, py = 0\<rparr>"] show ?thesis
    by (simp add: state_of_def startDrawing_def)
qed

section \<open>The rolling average\<close>

lemma foldl_plus_sum_list: "foldl (+) a xs = a + sum_list xs" for a :: real
  by (induction xs arbitrary: a) simp_all

lemma averageDistance_sum:
  "averageDistance s = sum_list (distanceBuffer s) / real (bufferSize s)"
  by (simp add: averageDistance_def foldl_plus_sum_list)

lemma assign_next_slot:
  "0 < m \<Longrightarrow> assign 0 (ds @ replicate m 0) (length ds) d = (ds @ [d]) @ replicate (m - 1) (0::real)"
  by (cases m) (simp_all add: assign_def list_update_append)

lemma stampLocals_take:
  "stampLocals doc (take n evs) s = take n (stampLocals doc evs s)"
proof (induction evs arbitrary: n s)
  case Nil
  show ?case by simp
next
  case (Cons ev evs)
  obtain now p where "ev = (now, p)" by (cases ev)
  then show ?case using Cons.IH by (cases n) simp_all
qed

lemma length_stampLocals [simp]: "length (stampLocals doc evs s) = length evs"
proof (induction evs arbitrary: s)
  case Nil
  show ?case by simp
next
  case (Cons ev evs)
  obtain now p where "ev = (now, p)" by (cases ev)
  then show ?case using Cons.IH by simp
qed

lemma stamp_average_last:
  assumes "isDrawing s" "brushMode s" "distanceBuffer s = ds @ replicate m 0"
    "bufferIndex s = length ds" "bufferSize s = length ds + m" "evs \<noteq> []" "length evs \<le> m"
  shows "avgDistance (last (stampLocals doc evs s)) =
           (sum_list ds + sum_list (map currentD (stampLocals doc evs s))) / real (bufferSize s)"
  using assms
proof (induction evs arbitrary: s ds m)
  case Nil
  then show ?case by simp
next
  case (Cons ev evs)
  obtain now p where ev: "ev = (now, p)" by (cases ev)
  define d where "d = currentD (drawImage_locals (px p) (py p) s)"
  have m: "0 < m" using Cons.prems(7) by simp
  have written: "distanceBuffer (addToBuffers d (px p) (py p) s) = (ds @ [d]) @ replicate (m - 1) 0"
    using assign_next_slot[OF m, of ds d] Cons.prems(3,4) by (simp add: addToBuffers_def)
  have here: "avgDistance (drawImage_locals (px p) (py p) s) =
      (sum_list ds + d) / real (bufferSize s)"
    using written
    by (simp add: avgDistance_locals d_def[symmetric] averageDistance_sum addToBuffers_def
          sum_list_replicate)
  show ?case
  proof (cases "evs = []")
    case True
    then show ?thesis using here by (simp add: ev d_def)
  next
    case False
    then have m2: "2 \<le> m" using Cons.prems(7) by (cases evs) simp_all
    define s1 where "s1 = state_of (draw doc now p s)"
    from draw_stamp_state[OF Cons.prems(1,2), of doc now p] obtain c h lx ly where
      "s1 = (addToBuffers d (px p) (py p) s)\<lparr>ctx := c, canvasHistory := h, lastX := lx, lastY := ly\<rparr>"
      unfolding s1_def d_def by blast
    then have s1: "isDrawing s1" "brushMode s1"
        "distanceBuffer s1 = (ds @ [d]) @ replicate (m - 1) 0"
        "bufferIndex s1 = (bufferIndex s + 1) mod bufferSize s" "bufferSize s1 = bufferSize s"
      using Cons.prems(1,2) written by (simp_all add: addToBuffers_def)
    have idx: "bufferIndex s1 = length (ds @ [d])"
      using s1(4) Cons.prems(4,5) m2 by simp
    have size: "bufferSize s1 = length (ds @ [d]) + (m - 1)"
      using s1(5) Cons.prems(5) m by simp
    have len: "length evs \<le> m - 1" using Cons.prems(7) by simp
    from Cons.IH[OF s1(1,2,3) idx size False len]
    have "avgDistance (last (stampLocals doc evs s1)) =
       (sum_list (ds @ [d]) + sum_list (map currentD (stampLocals doc evs s1))) / real (bufferSize s1)" .
    moreover have "stampLocals doc evs s1 \<noteq> []"
      using False length_stampLocals[of doc evs s1] by (metis length_0_conv)
    then have "last (stampLocals doc (ev # evs) s) = last (stampLocals doc evs s1)"
      by (simp add: ev s1_def)
    ultimately show ?thesis
      by (simp add: ev s1_def[symmetric] d_def s1(5) add.assoc)
  qed
qed

text \<open>
  C3: after \<open>startDrawing\<close> on a drawer in stamp mode whose distance buffer has
  \<open>bufferSize\<close> entries, the average \<open>_drawImage\<close> computes after writing in the first
  \<open>draw\<close> call is the distance from the start point divided by \<open>bufferSize\<close>, and in the
  call number \<open>k + 1\<close> of fewer than \<open>bufferSize\<close> calls it is the sum of the distances
  written so far divided by \<open>bufferSize\<close>.
\<close>

theorem average_is_zero_fill_diluted:
  assumes "getBrushMode s = True" and "length (distanceBuffer s) = bufferSize s"
    and "k < length evs" and "length evs < bufferSize s"
  shows "avgDistance (drawImage_locals x y (startDrawing t0 p0 s)) =
           sqrt ((x - px p0)\<^sup>2 + (y - py p0)\<^sup>2) / real (bufferSize s) \<and>
         avgDistance (stampLocals doc evs (startDrawing t0 p0 s) ! k) =
           sum_list (map currentD (take (Suc k) (stampLocals doc evs (startDrawing t0 p0 s))))
             / real (bufferSize s)"
proof -
  let ?s0 = "startDrawing t0 p0 s"
  have s0: "isDrawing ?s0" "brushMode ?s0"
      "distanceBuffer ?s0 = [] @ replicate (bufferSize s) 0"
      "bufferIndex ?s0 = length ([] :: real list)" "bufferSize ?s0 = length ([] :: real list) + bufferSize s"
    using assms(1,2) by (simp_all add: startDrawing_def getBrushMode_def map_replicate_const)
  have one: "avgDistance (last (stampLocals doc [(0, \<lparr>px = x, py = y\<rparr>)] ?s0)) =
       (sum_list [] + sum_list (map currentD (stampLocals doc [(0, \<lparr>px = x, py = y\<rparr>)] ?s0)))
         / real (bufferSize ?s0)"
    using assms(3,4) by (intro stamp_average_last[OF s0]) simp_all
  have first: "avgDistance (drawImage_locals x y ?s0) =
           sqrt ((x - px p0)\<^sup>2 + (y - py p0)\<^sup>2) / real (bufferSize s)"
    using one s0(5) by (simp add: currentD_locals) (simp add: startDrawing_def)
  let ?evs = "take (Suc k) evs"
  have "?evs \<noteq> []" "length ?evs \<le> bufferSize s" using assms(3,4) by auto
  from stamp_average_last[OF s0 this, of doc]
  have "avgDistance (last (take (Suc k) (stampLocals doc evs ?s0))) =
       sum_list (map currentD (take (Suc k) (stampLocals doc evs ?s0))) / real (bufferSize s)"
    using s0(5) by (simp add: stampLocals_take)
  moreover have "last (take (Suc k) (stampLocals doc evs ?s0)) = stampLocals doc evs ?s0 ! k"
    using assms(3) by (simp add: take_Suc_conv_app_nth)
  ultimately show ?thesis using first by simp
qed

lemma stampStroke_fields:
  "isDrawing stampStroke" "brushMode stampStroke" "resolves oneImage stampStroke"
  "canvasHistory stampStroke = [] @ [\<lparr>sx = 0, sy = 0, st = 0\<rparr> # []]"
  "lastX stampStroke = 0" "lastY stampStroke = 0" "bufferSize stampStroke = 20"
  "bufferIndex stampStroke = 0" "distanceBuffer stampStroke = replicate 20 0"
  "circlesPerPixel stampStroke = 0.1" "length (distanceBuffer stampStroke) = 20"
  by (simp_all add: stampStroke_def startDrawing_def setBrushImage_def setBrushMode_def
        freshDrawer_def resolves_def getElementById_def oneImage_def map_replicate_const)

text \<open>The state after the first segment of the stroke, from the origin to \<open>(30, 0)\<close>.\<close>

lemma stampStroke_first_segment:
  "lastX (state_of (draw oneImage 5 \<lparr>px = 30, py = 0\<rparr> stampStroke)) = 30"
  "lastY (state_of (draw oneImage 5 \<lparr>px = 30, py = 0\<rparr> stampStroke)) = 0"
  "distanceBuffer (state_of (draw oneImage 5 \<lparr>px = 30, py = 0\<rparr> stampStroke)) =
     (replicate 20 0)[0 := 30]"
  "bufferIndex (state_of (draw oneImage 5 \<lparr>px = 30, py = 0\<rparr> stampStroke)) = 1"
  "bufferSize (state_of (draw oneImage 5 \<lparr>px = 30, py = 0\<rparr> stampStroke)) = 20"
  "circlesPerPixel (state_of (draw oneImage 5 \<lparr>px = 30, py = 0\<rparr> stampStroke)) = 0.1"
proof -
  have d: "currentD (drawImage_locals 30 0 stampStroke) = 30"
    by (simp add: currentD_locals stampStroke_fields)
  from draw_stamp_resolved[OF stampStroke_fields(1-4), of 5 "\<lparr>px = 30, py = 0\<rparr>"]
  obtain c where "draw oneImage 5 \<lparr>px = 30, py = 0\<rparr> stampStroke =
     Inr ((addToBuffers 30 30 0 stampStroke)
           \<lparr>ctx := c,
            canvasHistory := [] @ [\<lparr>sx = 0, sy = 0, st = 0\<rparr> # [] @ [\<lparr>sx = 30, sy = 0, st = 5 - 0\<rparr>]],
            lastX := 30, lastY := 0\<rparr>)"
    by (auto simp: d)
  then have s1: "state_of (draw oneImage 5 \<lparr>px = 30, py = 0\<rparr> stampStroke) =
     (addToBuffers 30 30 0 stampStroke)
           \<lparr>ctx := c,
            canvasHistory := [[\<lparr>sx = 0, sy = 0, st = 0\<rparr>, \<lparr>sx = 30, sy = 0, st = 5\<rparr>]],
            lastX := 30, lastY := 0\<rparr>"
    by (simp add: state_of_def)
  show "lastX (state_of (draw oneImage 5 \<lparr>px = 30, py = 0\<rparr> stampStroke)) = 30"
    "lastY (state_of (draw oneImage 5 \<lparr>px = 30, py = 0\<rparr> stampStroke)) = 0"
    "distanceBuffer (state_of (draw oneImage 5 \<lparr>px = 30, py = 0\<rparr> stampStroke)) =
       (replicate 20 0)[0 := 30]"
    "bufferIndex (state_of (draw oneImage 5 \<lparr>px = 30, py = 0\<rparr> stampStroke)) = 1"
    "bufferSize (state_of (draw oneImage 5 \<lparr>px = 30, py = 0\<rparr> stampStroke)) = 20"
    "circlesPerPixel (state_of (draw oneImage 5 \<lparr>px = 30, py = 0\<rparr> stampStroke)) = 0.1"
    unfolding s1 by (simp_all add: addToBuffers_def assign_def stampStroke_fields)
qed

lemma stampStroke_second_locals:
  "drawImage_locals 60 0 (state_of (draw oneImage 5 \<lparr>px = 30, py = 0\<rparr> stampStroke)) =
     \<lparr>currentD = 30, avgDistanceLast = 3 / 2, avgDistance = 3, numCircles = 3\<rparr>"
proof -
  have before: "foldl (+) 0 ((replicate 20 (0::real))[0 := 30]) = 30"
    by (simp add: numeral_eq_Suc)
  have after: "foldl (+) 0 (assign 0 ((replicate 20 (0::real))[0 := 30]) (Suc 0) 30) = 60"
    by (simp add: assign_def numeral_eq_Suc)
  show ?thesis
    by (simp add: drawImage_locals_def Let_def averageDistance_def addToBuffers_def
          stampStroke_first_segment before after)
qed

theorem average_is_zero_fill_diluted_witness:
  "getBrushMode (setBrushImage (Some ''brush'') (setBrushMode True freshDrawer)) = True \<and>
   length (distanceBuffer (setBrushImage (Some ''brush'') (setBrushMode True freshDrawer))) =
     bufferSize (setBrushImage (Some ''brush'') (setBrushMode True freshDrawer)) \<and>
   (1::nat) < length [(5::int, \<lparr>px = 30, py = 0\<rparr>), (9, \<lparr>px = 60, py = 0\<rparr>)] \<and>
   length [(5::int, \<lparr>px = 30, py = 0\<rparr>), (9, \<lparr>px = 60, py = 0\<rparr>)] <
     bufferSize (setBrushImage (Some ''brush'') (setBrushMode True freshDrawer)) \<and>
   avgDistance (drawImage_locals 30 0 stampStroke) = 3 / 2 \<and>
   avgDistance (stampLocals oneImage [(5, \<lparr>px = 30, py = 0\<rparr>), (9, \<lparr>px = 60, py = 0\<rparr>)]
                  stampStroke ! 1) = 3"
proof -
  let ?s = "setBrushImage (Some ''brush'') (setBrushMode True freshDrawer)"
  let ?evs = "[(5::int, \<lparr>px = 30, py = 0\<rparr>), (9, \<lparr>px = 60, py = 0\<rparr>)]"
  have h: "getBrushMode ?s = True" "length (distanceBuffer ?s) = bufferSize ?s"
    "(1::nat) < length ?evs" "length ?evs < bufferSize ?s"
    by (simp_all add: getBrushMode_def setBrushImage_def setBrushMode_def freshDrawer_def)
  have size: "real (bufferSize ?s) = 20"
    by (simp add: setBrushImage_def setBrushMode_def freshDrawer_def)
  have ds: "map currentD (take (Suc 1) (stampLocals oneImage ?evs stampStroke)) = [30, 30]"
    by (simp add: stampStroke_second_locals) (simp add: currentD_locals stampStroke_fields)
  from average_is_zero_fill_diluted [OF h, of 30 0 0 "\<lparr>px = 0, py = 0\<rparr>" oneImage]
  have "avgDistance (drawImage_locals 30 0 stampStroke) = 3 / 2"
    "avgDistance (stampLocals oneImage ?evs stampStroke ! 1) = 3"
    unfolding stampStroke_def[symmetric] size ds by simp_all
  then show ?thesis using h by (simp only: simp_thms)
qed

section \<open>The radius of a stamp\<close>

text \<open>
  The radius of \<open>_drawBrush\<close> is the linear interpolation between the average before
  and the average after at \<open>t = i / numCircles\<close>.
\<close>

lemma drawBrush_r_interpolates:
  "drawBrush_r l i =
     avgDistanceLast l +
     (avgDistance l - avgDistanceLast l) * (real_of_int i / real_of_int (numCircles l))"
  by (simp add: drawBrush_r_def)

text \<open>
  C1 at a concrete run: the second segment of the stroke, from \<open>(30, 0)\<close> to \<open>(60, 0)\<close>.
  The average is 3/2 before and 3 after and there are 3 stamps after the first. The
  radius \<open>_drawImage\<close> computes is 3/4 at \<open>i = 0\<close> and 9/4 at \<open>i = 3\<close>, where the
  interpolation gives 3/2 and 3, the values \<open>_drawBrush\<close> computes.
\<close>

theorem drawImage_radius_second_segment:
  "avgDistanceLast (drawImage_locals 60 0
      (state_of (draw oneImage 5 \<lparr>px = 30, py = 0\<rparr> stampStroke))) = 3 / 2 \<and>
   avgDistance (drawImage_locals 60 0
      (state_of (draw oneImage 5 \<lparr>px = 30, py = 0\<rparr> stampStroke))) = 3 \<and>
   numCircles (drawImage_locals 60 0
      (state_of (draw oneImage 5 \<lparr>px = 30, py = 0\<rparr> stampStroke))) = 3 \<and>
   stamp_r (drawImage_stamp 60 0 (state_of (draw oneImage 5 \<lparr>px = 30, py = 0\<rparr> stampStroke))
      (drawImage_locals 60 0 (state_of (draw oneImage 5 \<lparr>px = 30, py = 0\<rparr> stampStroke))) 0)
     = 3 / 4 \<and>
   stamp_r (drawImage_stamp 60 0 (state_of (draw oneImage 5 \<lparr>px = 30, py = 0\<rparr> stampStroke))
      (drawImage_locals 60 0 (state_of (draw oneImage 5 \<lparr>px = 30, py = 0\<rparr> stampStroke))) 3)
     = 9 / 4 \<and>
   drawBrush_r
      (drawImage_locals 60 0 (state_of (draw oneImage 5 \<lparr>px = 30, py = 0\<rparr> stampStroke))) 0
     = 3 / 2 \<and>
   drawBrush_r
      (drawImage_locals 60 0 (state_of (draw oneImage 5 \<lparr>px = 30, py = 0\<rparr> stampStroke))) 3
     = 3"
  unfolding stampStroke_second_locals
  by (simp add: drawImage_stamp_def drawBrush_r_def Let_def)

end
